theory Spec2Isabelle
  imports Complex_Main
begin

section \<open>Values exchanged with the completion endpoint\<close>

text \<open>
  The server module talks to a chat-completion endpoint through \<open>fetch\<close>. A parsed
  response body is a JSON value (an object lists its own properties, each key once); a
  thrown JavaScript error is seen by the program only through its \<open>name\<close>, \<open>code\<close> and
  \<open>message\<close> properties.
\<close>

datatype json =
    JNull
  | JBool bool
  | JNum rat
  | JStr string
  | JArr "json list"
  | JObj "(string \<times> json) list"

record js_error =
  error_name :: string
  error_code :: "string option"
  error_message :: string

text \<open>
  Looking a property up in one of the module's object literals also finds the members
  every object inherits from \<open>Object.prototype\<close>; such a member is a function (or, for
  \<open>__proto__\<close>, the prototype object itself), never a string.
\<close>

datatype property_value = Str string | Inherited string

definition Object_prototype :: "string list" where
  "Object_prototype =
     [''constructor'', ''__defineGetter__'', ''__defineSetter__'', ''hasOwnProperty'',
      ''__lookupGetter__'', ''__lookupSetter__'', ''isPrototypeOf'',
      ''propertyIsEnumerable'', ''toString'', ''valueOf'', ''__proto__'',
      ''toLocaleString'']"

record personality =
  name :: string
  role :: string
  style :: string

record message =
  role :: string
  content :: string

record chat_body =
  model :: property_value
  messages :: "message list"
  max_tokens :: nat
  temperature :: rat

record request =
  url :: string
  http_method :: string
  headers :: "(string \<times> string) list"
  body :: chat_body

text \<open>
  A response carries its status and what reading the body gives: \<open>response.text()\<close> and
  \<open>response.json()\<close> each either yield a value or reject with an error. A fetch that
  \<open>fetchWithTimeout\<close> aborts after \<open>FETCH_TIMEOUT_MS\<close> rejects with an error named
  \<open>AbortError\<close>; time itself is not modelled.
\<close>

record response =
  status :: nat
  body_text :: "js_error + string"
  body_json :: "js_error + json"

datatype fetch_result = Rejects js_error | Resolves response

text \<open>
  What one call does to the outside world, in order: requests sent and delays waited.
  Console output is diagnostic only and is left out.
\<close>

datatype event = Fetch request | Delay nat

text \<open>
  The world of one call: the API key of the process environment, and the endpoint, which
  answers a request knowing everything that happened before it.
\<close>

record world =
  GROQ_API_KEY :: "string option"
  fetch :: "event list \<Rightarrow> request \<Rightarrow> fetch_result"

datatype outcome = Return json | ReturnUndefined | Throw js_error

section \<open>Configuration\<close>

definition GROQ_API_URL :: string where
  "GROQ_API_URL = ''https://api.groq.com/openai/v1/chat/completions''"

definition MAX_RETRIES :: nat where
  "MAX_RETRIES = 3"

definition INITIAL_RETRY_DELAY_MS :: nat where
  "INITIAL_RETRY_DELAY_MS = 1000"

definition FREE_MODELS :: "(string \<times> string) list" where
  "FREE_MODELS =
     [(''llama33'', ''llama-3.3-70b-versatile''),
      (''llama31'', ''llama-3.1-8b-instant''),
      (''llama3'', ''llama3-70b-8192''),
      (''mixtral'', ''mixtral-8x7b-32768''),
      (''gemma2'', ''gemma2-9b-it''),
      (''llama32'', ''llama-3.2-90b-text-preview'')]"

definition MODEL_FALLBACK_ORDER :: "string list" where
  "MODEL_FALLBACK_ORDER =
     [''llama33'', ''llama32'', ''llama3'', ''mixtral'', ''llama31'', ''gemma2'']"

text \<open>The \<open>tokens\<close> of each entry of \<open>RESPONSE_LENGTHS\<close>; the descriptions are not used by
  the orchestrator.\<close>

definition RESPONSE_LENGTHS :: "(string \<times> nat) list" where
  "RESPONSE_LENGTHS = [(''short'', 150), (''medium'', 300), (''long'', 500)]"

section \<open>JavaScript operators used by the module\<close>

text \<open>\<open>FREE_MODELS[k]\<close>: an own key first, then the inherited members; \<open>None\<close> is \<open>undefined\<close>.\<close>

definition FREE_MODELS_get :: "string \<Rightarrow> property_value option" where
  "FREE_MODELS_get k =
     (case map_of FREE_MODELS k of
        Some v \<Rightarrow> Some (Str v)
      | None \<Rightarrow> if k \<in> set Object_prototype then Some (Inherited k) else None)"

text \<open>\<open>k in FREE_MODELS\<close>: true for own keys and for inherited members alike.\<close>

definition in_FREE_MODELS :: "string \<Rightarrow> bool" where
  "in_FREE_MODELS k \<longleftrightarrow> map_of FREE_MODELS k \<noteq> None \<or> k \<in> set Object_prototype"

fun truthy_property :: "property_value \<Rightarrow> bool" where
  "truthy_property (Str s) = (s \<noteq> [])"
| "truthy_property (Inherited k) = True"

fun truthy :: "json \<Rightarrow> bool" where
  "truthy JNull = False"
| "truthy (JBool b) = b"
| "truthy (JNum r) = (r \<noteq> 0)"
| "truthy (JStr s) = (s \<noteq> [])"
| "truthy (JArr xs) = True"
| "truthy (JObj kvs) = True"

text \<open>
  \<open>v?.p\<close> for a property name \<open>p\<close> that no array, string, number or boolean has
  (here \<open>choices\<close>, \<open>message\<close>, \<open>content\<close>): only an object can hold it.
\<close>

fun opt_prop :: "json option \<Rightarrow> string \<Rightarrow> json option" where
  "opt_prop (Some (JObj kvs)) p = map_of kvs p"
| "opt_prop v p = None"

text \<open>\<open>v?.[0]\<close>: the first element of an array, the first character of a string, the
  property \<open>"0"\<close> of an object.\<close>

fun opt_first :: "json option \<Rightarrow> json option" where
  "opt_first (Some (JArr xs)) = (case xs of [] \<Rightarrow> None | x # _ \<Rightarrow> Some x)"
| "opt_first (Some (JStr s)) = (case s of [] \<Rightarrow> None | c # _ \<Rightarrow> Some (JStr [c]))"
| "opt_first (Some (JObj kvs)) = map_of kvs ''0''"
| "opt_first v = None"

text \<open>\<open>data?.choices?.[0]?.message?.content\<close>\<close>

definition message_content :: "json \<Rightarrow> json option" where
  "message_content data =
     opt_prop (opt_prop (opt_first (opt_prop (Some data) ''choices'')) ''message'') ''content''"

text \<open>A \<open>Set\<close> of strings keeps its members in insertion order.\<close>

definition Set_has :: "string list \<Rightarrow> string \<Rightarrow> bool" where
  "Set_has s x \<longleftrightarrow> x \<in> set s"

definition Set_add :: "string list \<Rightarrow> string \<Rightarrow> string list" where
  "Set_add s x = (if x \<in> set s then s else s @ [x])"

definition new_Set :: "string list \<Rightarrow> string list" where
  "new_Set xs = fold (\<lambda>x s. Set_add s x) xs []"

definition Array_from :: "string list \<Rightarrow> string list" where
  "Array_from s = s"

text \<open>A number inside a template literal is written in decimal.\<close>

fun decimal :: "nat \<Rightarrow> string" where
  "decimal n =
     (if n < 10 then [''0123456789'' ! n]
      else decimal (n div 10) @ [''0123456789'' ! (n mod 10)])"

declare decimal.simps [simp del]

definition response_ok :: "response \<Rightarrow> bool" where
  "response_ok r \<longleftrightarrow> 200 \<le> status r \<and> status r \<le> 299"

section \<open>The orchestrator\<close>

text \<open>\<open>FREE_MODELS[model] || FREE_MODELS.llama33\<close>\<close>

definition modelId_of :: "string \<Rightarrow> property_value" where
  "modelId_of m =
     (case FREE_MODELS_get m of
        Some v \<Rightarrow> if truthy_property v then v else Str (the (map_of FREE_MODELS ''llama33''))
      | None \<Rightarrow> Str (the (map_of FREE_MODELS ''llama33'')))"

text \<open>\<open>RESPONSE_LENGTHS[length]?.tokens || 300\<close>: a member the table only inherits has no
  \<open>tokens\<close>, so every length that is not a key of the table gets 300.\<close>

definition maxTokens_of :: "string \<Rightarrow> nat" where
  "maxTokens_of len =
     (case map_of RESPONSE_LENGTHS len of
        Some t \<Rightarrow> if t \<noteq> 0 then t else 300
      | None \<Rightarrow> 300)"

definition bearer :: "string option \<Rightarrow> string" where
  "bearer k = ''Bearer '' @ (case k of Some s \<Rightarrow> s | None \<Rightarrow> ''undefined'')"

definition build_request :: "world \<Rightarrow> string \<Rightarrow> personality \<Rightarrow> property_value \<Rightarrow> nat \<Rightarrow> request" where
  "build_request w prompt pers modelId maxTokens =
     \<lparr>url = GROQ_API_URL,
      http_method = ''POST'',
      headers = [(''Authorization'', bearer (GROQ_API_KEY w)),
                 (''Content-Type'', ''application/json'')],
      body = \<lparr>model = modelId,
              messages = [\<lparr>role = ''system'', content = style pers\<rparr>,
                          \<lparr>role = ''user'', content = prompt\<rparr>],
              max_tokens = maxTokens,
              temperature = 7 / 10\<rparr>\<rparr>"

definition api_error :: "nat \<Rightarrow> string \<Rightarrow> js_error" where
  "api_error st errorData =
     \<lparr>error_name = ''Error'', error_code = None,
      error_message = ''Groq API error: '' @ decimal st @ '' - '' @ errorData\<rparr>"

definition missing_content :: js_error where
  "missing_content =
     \<lparr>error_name = ''Error'', error_code = None,
      error_message = ''Invalid response from Groq API: missing content''\<rparr>"

definition isNetworkError :: "js_error \<Rightarrow> bool" where
  "isNetworkError e \<longleftrightarrow>
     error_name e = ''AbortError'' \<or>
     error_name e = ''TypeError'' \<or>
     error_code e = Some ''UND_ERR_CONNECT_TIMEOUT'' \<or>
     error_code e = Some ''ECONNREFUSED'' \<or>
     error_code e = Some ''ETIMEDOUT''"

text \<open>\<open>MODEL_FALLBACK_ORDER.find(m => !triedModelsSet.has(m))\<close>; \<open>None\<close> is \<open>undefined\<close>.\<close>

definition fallbackModel_of :: "string list \<Rightarrow> string option" where
  "fallbackModel_of triedModelsSet = find (\<lambda>m. \<not> Set_has triedModelsSet m) MODEL_FALLBACK_ORDER"

text \<open>
  The names \<open>k in FREE_MODELS\<close> accepts that the set does not hold yet; every fallback
  adds one of them to the set.
\<close>

definition untried :: "string list \<Rightarrow> nat" where
  "untried s = length (filter (\<lambda>k. k \<notin> set s) (map fst FREE_MODELS @ Object_prototype))"

text \<open>Facts about the tried set that the termination of the loop rests on.\<close>

lemma set_Set_add: "set (Set_add s x) = insert x (set s)"
  by (auto simp: Set_add_def)

lemma set_new_Set_aux: "set (fold (\<lambda>x s. Set_add s x) xs acc) = set xs \<union> set acc"
  by (induction xs arbitrary: acc) (auto simp: set_Set_add)

lemma set_new_Set: "set (new_Set xs) = set xs"
  by (simp add: new_Set_def set_new_Set_aux)

lemma untried_mono: "set s \<subseteq> set t \<Longrightarrow> untried t \<le> untried s"
proof -
  assume sub: "set s \<subseteq> set t"
  have "length (filter (\<lambda>k. k \<notin> set t) ks) \<le> length (filter (\<lambda>k. k \<notin> set s) ks)" for ks
    using sub by (induction ks) auto
  then show ?thesis by (simp only: untried_def)
qed

lemma untried_add:
  assumes "in_FREE_MODELS m" and "m \<notin> set s"
  shows "untried (new_Set (Array_from (Set_add s m))) < untried s"
proof -
  let ?ks = "map fst FREE_MODELS @ Object_prototype"
  have mem: "m \<in> set ?ks"
    using assms(1) by (auto simp: in_FREE_MODELS_def map_of_eq_None_iff)
  have "length (filter (\<lambda>k. k \<notin> insert m (set s)) ks) < length (filter (\<lambda>k. k \<notin> set s) ks)"
    if "m \<in> set ks" for ks
    using that assms(2)
  proof (induction ks)
    case Nil
    then show ?case by simp
  next
    case (Cons k ks)
    have le: "length (filter (\<lambda>k. k \<notin> insert m (set s)) ks) \<le> length (filter (\<lambda>k. k \<notin> set s) ks)"
      by (induction ks) auto
    show ?case
    proof (cases "k = m")
      case True
      then show ?thesis using le Cons.prems(2) by simp
    next
      case False
      then have "m \<in> set ks" using Cons.prems(1) by simp
      then show ?thesis using Cons.IH Cons.prems(2) by simp
    qed
  qed
  from this[OF mem] show ?thesis
    by (simp add: untried_def set_new_Set Array_from_def set_Set_add)
qed

lemma measures_step:
  fixes f g :: "'a \<Rightarrow> nat"
  assumes "f a \<le> f b" and "g a < g b"
  shows "(a, b) \<in> measures [f, g]"
  using assms by (cases "f a = f b") auto

text \<open>
  \<open>callGroq_while\<close> is the body of \<open>callGroq\<close> from its \<open>while\<close> loop on, with the loop's
  variables \<open>attempt\<close> and \<open>triedModelsSet\<close> as arguments; \<open>modelId\<close> and \<open>maxTokens\<close> are
  computed from \<open>model\<close> and \<open>length\<close> as at the head of \<open>callGroq\<close>. The recursive call
  \<open>callGroq(prompt, personality, length, fallbackModel, Array.from(triedModelsSet))\<close>
  stands inside the \<open>try\<close> block, so what it throws reaches this frame's \<open>catch\<close>.
\<close>

function callGroq_while ::
  "world \<Rightarrow> string \<Rightarrow> personality \<Rightarrow> string \<Rightarrow> string \<Rightarrow> string list \<Rightarrow> nat \<Rightarrow> event list
     \<Rightarrow> outcome \<times> event list"
where
  "callGroq_while w prompt pers len mdl triedModelsSet attempt tr =
     (if \<not> attempt \<le> MAX_RETRIES then (ReturnUndefined, tr)
      else
        let req = build_request w prompt pers (modelId_of mdl) (maxTokens_of len);
            tr1 = tr @ [Fetch req];
            (res, tried', tr') =
              (case fetch w tr req of
                 Rejects e \<Rightarrow> (Throw e, triedModelsSet, tr1)
               | Resolves r \<Rightarrow>
                   if \<not> response_ok r then
                     (case body_text r of
                        Inl e \<Rightarrow> (Throw e, triedModelsSet, tr1)
                      | Inr errorData \<Rightarrow>
                          if (status r = 404 \<or> status r = 429 \<or> status r = 503)
                             \<and> in_FREE_MODELS mdl \<and> \<not> Set_has triedModelsSet mdl
                          then
                            let tried2 = Set_add triedModelsSet mdl in
                            (case fallbackModel_of tried2 of
                               Some fallbackModel \<Rightarrow>
                                 (case callGroq_while w prompt pers len fallbackModel
                                         (new_Set (Array_from tried2)) 0 tr1 of
                                    (res2, tr2) \<Rightarrow> (res2, tried2, tr2))
                             | None \<Rightarrow> (Throw (api_error (status r) errorData), tried2, tr1))
                          else (Throw (api_error (status r) errorData), triedModelsSet, tr1))
                   else
                     (case body_json r of
                        Inl e \<Rightarrow> (Throw e, triedModelsSet, tr1)
                      | Inr data \<Rightarrow>
                          (case message_content data of
                             None \<Rightarrow> (Throw missing_content, triedModelsSet, tr1)
                           | Some c \<Rightarrow>
                               if \<not> truthy c then (Throw missing_content, triedModelsSet, tr1)
                               else (Return c, triedModelsSet, tr1))))
        in case res of
             Throw error \<Rightarrow>
               if isNetworkError error \<and> \<not> attempt = MAX_RETRIES
               then callGroq_while w prompt pers len mdl tried' (attempt + 1)
                      (tr' @ [Delay (INITIAL_RETRY_DELAY_MS * 2 ^ attempt)])
               else (Throw error, tr')
           | _ \<Rightarrow> (res, tr'))"
  by pat_completeness auto

termination
proof (relation "measures [\<lambda>(w, prompt, pers, len, mdl, tried, attempt, tr). untried tried,
                          \<lambda>(w, prompt, pers, len, mdl, tried, attempt, tr). MAX_RETRIES + 1 - attempt]",
       goal_cases)
  case 1
  show ?case by simp
next
  case (2 w prompt pers len mdl triedModelsSet attempt tr req tr1 r errorData tried2 fallbackModel)
  then have "untried (new_Set (Array_from (Set_add triedModelsSet mdl))) < untried triedModelsSet"
    by (intro untried_add) (simp_all add: Set_has_def)
  with 2 show ?case by simp
next
  case (3 w prompt pers len mdl triedModelsSet attempt tr req tr1 t res y tried' tr' error)
  have "tried' = triedModelsSet \<or> tried' = Set_add triedModelsSet mdl"
    using 3(4,5,6)
    by (auto simp: Let_def split: fetch_result.splits sum.splits if_splits option.splits prod.splits)
  then have "set triedModelsSet \<subseteq> set tried'"
    by (auto simp: set_Set_add)
  then have le: "untried tried' \<le> untried triedModelsSet"
    by (rule untried_mono)
  have "MAX_RETRIES + 1 - (attempt + 1) < MAX_RETRIES + 1 - attempt"
    using 3(1) by simp
  with le show ?case
    by (intro measures_step) simp_all
qed

text \<open>
  \<open>callGroq(prompt, personality, length, model, triedModels)\<close>, started on a world whose
  history so far is \<open>tr\<close>.
\<close>

definition callGroq ::
  "world \<Rightarrow> string \<Rightarrow> personality \<Rightarrow> string \<Rightarrow> string \<Rightarrow> string list \<Rightarrow> event list
     \<Rightarrow> outcome \<times> event list"
where
  "callGroq w prompt pers len mdl triedModels tr =
     callGroq_while w prompt pers len mdl (new_Set triedModels) 0 tr"

text \<open>
  The call the debate endpoint makes for each side of a round,
  \<open>callGroq(prompt, personality, responseLength, model)\<close>: \<open>triedModels\<close> takes its default
  \<open>[]\<close>, and nothing has happened yet. The alias is the string the caller passes (a
  missing one takes the parameter's default, \<open>llama33\<close>).
\<close>

definition complete_call ::
  "world \<Rightarrow> string \<Rightarrow> personality \<Rightarrow> string \<Rightarrow> string \<Rightarrow> outcome \<times> event list"
where
  "complete_call w prompt pers len startAlias = callGroq w prompt pers len startAlias [] []"

text \<open>The request every attempt of one frame sends.\<close>

definition request_of :: "world \<Rightarrow> string \<Rightarrow> personality \<Rightarrow> string \<Rightarrow> string \<Rightarrow> request" where
  "request_of w prompt pers len mdl =
     build_request w prompt pers (modelId_of mdl) (maxTokens_of len)"

text \<open>What the \<open>catch\<close> block waits before retry number \<open>attempt + 1\<close>.\<close>

definition delayMs :: "nat \<Rightarrow> nat" where
  "delayMs attempt = INITIAL_RETRY_DELAY_MS * 2 ^ attempt"

text \<open>The three statuses the fallback test names.\<close>

definition fallback_status :: "nat \<Rightarrow> bool" where
  "fallback_status st \<longleftrightarrow> st = 404 \<or> st = 429 \<or> st = 503"

text \<open>
  What one attempt comes to before the \<open>catch\<close> block and the fallback test look at it:
  a value to return, an error thrown inside the \<open>try\<close> block, or a rejection with one
  of the three statuses of the fallback test (with the body text read from it).
\<close>

datatype attempt = Returned json | Thrown js_error | Eligible nat string

definition attempt_result :: "fetch_result \<Rightarrow> attempt" where
  "attempt_result fr =
     (case fr of
        Rejects e \<Rightarrow> Thrown e
      | Resolves r \<Rightarrow>
          if \<not> response_ok r then
            (case body_text r of
               Inl e \<Rightarrow> Thrown e
             | Inr errorData \<Rightarrow>
                 if fallback_status (status r) then Eligible (status r) errorData
                 else Thrown (api_error (status r) errorData))
          else
            (case body_json r of
               Inl e \<Rightarrow> Thrown e
             | Inr data \<Rightarrow>
                 (case message_content data of
                    None \<Rightarrow> Thrown missing_content
                  | Some c \<Rightarrow> if \<not> truthy c then Thrown missing_content else Returned c)))"

text \<open>The events of \<open>n\<close> failed attempts in a row, the first one being attempt \<open>a\<close>.\<close>

definition retries :: "request \<Rightarrow> nat \<Rightarrow> nat \<Rightarrow> event list" where
  "retries rq a n = concat (map (\<lambda>i. [Fetch rq, Delay (delayMs i)]) [a..<a + n])"

text \<open>The delays of a history, in order.\<close>

definition delays :: "event list \<Rightarrow> nat list" where
  "delays tr = concat (map (\<lambda>e. case e of Fetch rq \<Rightarrow> [] | Delay d \<Rightarrow> [d]) tr)"

text \<open>The fetch fails with an error the \<open>catch\<close> block takes for a network error.\<close>

definition transport_failure :: "fetch_result \<Rightarrow> bool" where
  "transport_failure fr = (case fr of Rejects e \<Rightarrow> isNetworkError e | Resolves r \<Rightarrow> False)"

text \<open>The fetch is answered with a success status and a body whose text field is \<open>c\<close>.\<close>

definition answers_with :: "json \<Rightarrow> fetch_result \<Rightarrow> bool" where
  "answers_with c fr =
     (case fr of
        Rejects e \<Rightarrow> False
      | Resolves r \<Rightarrow>
          response_ok r \<and>
          (case body_json r of
             Inl e \<Rightarrow> False
           | Inr data \<Rightarrow> message_content data = Some c \<and> truthy c))"

text \<open>How many aliases of the fallback order a tried set does not hold.\<close>

definition untried_order :: "string list \<Rightarrow> nat" where
  "untried_order s = length (filter (\<lambda>m. m \<notin> set s) MODEL_FALLBACK_ORDER)"

text \<open>The fetch is answered with a success status and a body whose text field is absent
  or falsy.\<close>

definition missing_text :: "fetch_result \<Rightarrow> bool" where
  "missing_text fr =
     (case fr of
        Rejects e \<Rightarrow> False
      | Resolves r \<Rightarrow>
          response_ok r \<and>
          (case body_json r of
             Inl e \<Rightarrow> False
           | Inr data \<Rightarrow> (case message_content data of None \<Rightarrow> True | Some c \<Rightarrow> \<not> truthy c)))"

text \<open>The fetch is answered with status \<open>st\<close> and a body whose text can be read.\<close>

definition rejected_with :: "nat \<Rightarrow> fetch_result \<Rightarrow> bool" where
  "rejected_with st fr =
     (case fr of
        Rejects e \<Rightarrow> False
      | Resolves r \<Rightarrow> status r = st \<and> (case body_text r of Inl e \<Rightarrow> False | Inr t \<Rightarrow> True))"

text \<open>The fetch is answered with status \<open>st\<close>.\<close>

definition has_status :: "nat \<Rightarrow> fetch_result \<Rightarrow> bool" where
  "has_status st fr = (case fr of Rejects e \<Rightarrow> False | Resolves r \<Rightarrow> status r = st)"

text \<open>One request for each alias of a list, in order, and nothing else.\<close>

definition requests_for :: "world \<Rightarrow> string \<Rightarrow> personality \<Rightarrow> string \<Rightarrow> string list \<Rightarrow> event list" where
  "requests_for w prompt pers len ms = map (\<lambda>m. Fetch (request_of w prompt pers len m)) ms"

section \<open>Sample worlds\<close>

text \<open>What \<open>fetch\<close> throws when the connection fails, and what \<open>response.json()\<close> throws
  on a body that is not JSON.\<close>

definition fetch_failed :: js_error where
  "fetch_failed =
     \<lparr>error_name = ''TypeError'', error_code = None, error_message = ''fetch failed''\<rparr>"

definition not_json :: js_error where
  "not_json =
     \<lparr>error_name = ''SyntaxError'', error_code = None, error_message = ''Unexpected token''\<rparr>"

definition rejection :: "nat \<Rightarrow> string \<Rightarrow> response" where
  "rejection st txt = \<lparr>status = st, body_text = Inr txt, body_json = Inl not_json\<rparr>"

definition completion :: "string \<Rightarrow> response" where
  "completion txt =
     \<lparr>status = 200, body_text = Inr [],
      body_json = Inr (JObj [(''choices'',
        JArr [JObj [(''message'',
          JObj [(''role'', JStr ''assistant''), (''content'', JStr txt)])]])])\<rparr>"

definition pro :: personality where
  "pro = \<lparr>name = ''Pro Agent'', role = ''advocate'', style = ''Argue in favor.''\<rparr>"

text \<open>The requests of a history, in order.\<close>

definition fetches :: "event list \<Rightarrow> request list" where
  "fetches tr = concat (map (\<lambda>e. case e of Fetch rq \<Rightarrow> [rq] | Delay d \<Rightarrow> []) tr)"

text \<open>The first request is answered 503; \<open>llama32\<close> is unreachable; after that the endpoint
  answers.\<close>

definition w_unreachable_fallback :: world where
  "w_unreachable_fallback =
     \<lparr>GROQ_API_KEY = Some ''key'',
      fetch = (\<lambda>h rq.
        if model (body rq) = Str ''llama-3.2-90b-text-preview'' then Rejects fetch_failed
        else if h = [] then Resolves (rejection 503 ''overloaded'')
        else Resolves (completion ''Hello''))\<rparr>"

text \<open>The first six requests are answered 429; then the network is down.\<close>

definition w_storm :: world where
  "w_storm =
     \<lparr>GROQ_API_KEY = Some ''key'',
      fetch = (\<lambda>h rq.
        if length h < 6 then Resolves (rejection 429 ''slow down'') else Rejects fetch_failed)\<rparr>"

text \<open>The first request is answered 503, the second one succeeds.\<close>

definition w_second_answers :: world where
  "w_second_answers =
     \<lparr>GROQ_API_KEY = Some ''key'',
      fetch = (\<lambda>h rq.
        if h = [] then Resolves (rejection 503 ''overloaded'')
        else Resolves (completion ''Hello''))\<rparr>"

text \<open>Every request is answered with a success whose \<open>choices\<close> are empty.\<close>

definition w_no_text :: world where
  "w_no_text =
     \<lparr>GROQ_API_KEY = Some ''key'',
      fetch = (\<lambda>h rq. Resolves \<lparr>status = 200, body_text = Inr [],
                                   body_json = Inr (JObj [(''choices'', JArr [])])\<rparr>)\<rparr>"

text \<open>The connection fails three times, then the endpoint answers.\<close>

definition w_flaky :: world where
  "w_flaky =
     \<lparr>GROQ_API_KEY = Some ''key'',
      fetch = (\<lambda>h rq. if length h < 6 then Rejects fetch_failed
                       else Resolves (completion ''Hello''))\<rparr>"


text \<open>Only \<open>llama3\<close> answers; every other request is answered 503.\<close>

definition w_third_answers :: world where
  "w_third_answers =
     \<lparr>GROQ_API_KEY = Some ''key'',
      fetch = (\<lambda>h rq.
        if model (body rq) = Str ''llama3-70b-8192'' then Resolves (completion ''Hello'')
        else Resolves (rejection 503 ''overloaded''))\<rparr>"

declare callGroq_while.simps [simp del]

section \<open>One iteration of the loop, case by case\<close>

lemma while_past_limit:
  "\<not> attempt \<le> MAX_RETRIES \<Longrightarrow>
   callGroq_while w prompt pers len mdl tried attempt tr = (ReturnUndefined, tr)"
  by (subst callGroq_while.simps) simp

lemma while_throws:
  assumes "attempt \<le> MAX_RETRIES"
    and "fetch w tr (request_of w prompt pers len mdl) = Rejects e"
  shows "callGroq_while w prompt pers len mdl tried attempt tr =
     (if isNetworkError e \<and> attempt \<noteq> MAX_RETRIES
      then callGroq_while w prompt pers len mdl tried (attempt + 1)
             (tr @ [Fetch (request_of w prompt pers len mdl), Delay (delayMs attempt)])
      else (Throw e, tr @ [Fetch (request_of w prompt pers len mdl)]))"
  using assms
  by (subst callGroq_while.simps) (simp add: request_of_def delayMs_def Let_def)

lemma while_text_throws:
  assumes "attempt \<le> MAX_RETRIES"
    and "fetch w tr (request_of w prompt pers len mdl) = Resolves r"
    and "\<not> response_ok r" and "body_text r = Inl e"
  shows "callGroq_while w prompt pers len mdl tried attempt tr =
     (if isNetworkError e \<and> attempt \<noteq> MAX_RETRIES
      then callGroq_while w prompt pers len mdl tried (attempt + 1)
             (tr @ [Fetch (request_of w prompt pers len mdl), Delay (delayMs attempt)])
      else (Throw e, tr @ [Fetch (request_of w prompt pers len mdl)]))"
  using assms
  by (subst callGroq_while.simps) (simp add: request_of_def delayMs_def Let_def)

lemma while_json_throws:
  assumes "attempt \<le> MAX_RETRIES"
    and "fetch w tr (request_of w prompt pers len mdl) = Resolves r"
    and "response_ok r" and "body_json r = Inl e"
  shows "callGroq_while w prompt pers len mdl tried attempt tr =
     (if isNetworkError e \<and> attempt \<noteq> MAX_RETRIES
      then callGroq_while w prompt pers len mdl tried (attempt + 1)
             (tr @ [Fetch (request_of w prompt pers len mdl), Delay (delayMs attempt)])
      else (Throw e, tr @ [Fetch (request_of w prompt pers len mdl)]))"
  using assms
  by (subst callGroq_while.simps) (simp add: request_of_def delayMs_def Let_def)

lemma not_network_missing_content: "\<not> isNetworkError missing_content"
  by (simp add: isNetworkError_def missing_content_def)

lemma not_network_api_error: "\<not> isNetworkError (api_error st txt)"
  by (simp add: isNetworkError_def api_error_def)

lemma while_missing_content:
  assumes "attempt \<le> MAX_RETRIES"
    and "fetch w tr (request_of w prompt pers len mdl) = Resolves r"
    and "response_ok r" and "body_json r = Inr data"
    and "message_content data = None \<or> (\<exists>c. message_content data = Some c \<and> \<not> truthy c)"
  shows "callGroq_while w prompt pers len mdl tried attempt tr =
     (Throw missing_content, tr @ [Fetch (request_of w prompt pers len mdl)])"
  using assms
  by (subst callGroq_while.simps)
     (auto simp: request_of_def Let_def not_network_missing_content)

lemma while_returns:
  assumes "attempt \<le> MAX_RETRIES"
    and "fetch w tr (request_of w prompt pers len mdl) = Resolves r"
    and "response_ok r" and "body_json r = Inr data"
    and "message_content data = Some c" and "truthy c"
  shows "callGroq_while w prompt pers len mdl tried attempt tr =
     (Return c, tr @ [Fetch (request_of w prompt pers len mdl)])"
  using assms
  by (subst callGroq_while.simps) (simp add: request_of_def Let_def)

lemma while_rejected_terminal:
  assumes "attempt \<le> MAX_RETRIES"
    and "fetch w tr (request_of w prompt pers len mdl) = Resolves r"
    and "\<not> response_ok r" and "body_text r = Inr errorData"
    and "\<not> (fallback_status (status r) \<and> in_FREE_MODELS mdl \<and> \<not> Set_has tried mdl)"
  shows "callGroq_while w prompt pers len mdl tried attempt tr =
     (Throw (api_error (status r) errorData), tr @ [Fetch (request_of w prompt pers len mdl)])"
  using assms
  by (subst callGroq_while.simps)
     (auto simp: request_of_def Let_def fallback_status_def not_network_api_error)

lemma while_exhausted:
  assumes "attempt \<le> MAX_RETRIES"
    and "fetch w tr (request_of w prompt pers len mdl) = Resolves r"
    and "\<not> response_ok r" and "body_text r = Inr errorData"
    and "fallback_status (status r)" and "in_FREE_MODELS mdl" and "\<not> Set_has tried mdl"
    and "fallbackModel_of (Set_add tried mdl) = None"
  shows "callGroq_while w prompt pers len mdl tried attempt tr =
     (Throw (api_error (status r) errorData), tr @ [Fetch (request_of w prompt pers len mdl)])"
  using assms
  by (subst callGroq_while.simps)
     (auto simp: request_of_def Let_def fallback_status_def not_network_api_error)

lemma while_fallback:
  assumes "attempt \<le> MAX_RETRIES"
    and "fetch w tr (request_of w prompt pers len mdl) = Resolves r"
    and "\<not> response_ok r" and "body_text r = Inr errorData"
    and "fallback_status (status r)" and "in_FREE_MODELS mdl" and "\<not> Set_has tried mdl"
    and "fallbackModel_of (Set_add tried mdl) = Some fallbackModel"
  shows "callGroq_while w prompt pers len mdl tried attempt tr =
     (case callGroq w prompt pers len fallbackModel (Array_from (Set_add tried mdl))
             (tr @ [Fetch (request_of w prompt pers len mdl)]) of
        (Throw e, tr2) \<Rightarrow>
          if isNetworkError e \<and> attempt \<noteq> MAX_RETRIES
          then callGroq_while w prompt pers len mdl (Set_add tried mdl) (attempt + 1)
                 (tr2 @ [Delay (delayMs attempt)])
          else (Throw e, tr2)
      | (res, tr2) \<Rightarrow> (res, tr2))"
  using assms
  by (subst callGroq_while.simps)
     (auto simp: request_of_def Let_def fallback_status_def callGroq_def delayMs_def
           split: prod.splits outcome.splits)

text \<open>The loop's equation by the result of the attempt.\<close>

lemma while_cases:
  "callGroq_while w prompt pers len mdl tried attempt tr =
     (if \<not> attempt \<le> MAX_RETRIES then (ReturnUndefined, tr)
      else
        case attempt_result (fetch w tr (request_of w prompt pers len mdl)) of
          Returned c \<Rightarrow> (Return c, tr @ [Fetch (request_of w prompt pers len mdl)])
        | Thrown e \<Rightarrow>
            if isNetworkError e \<and> attempt \<noteq> MAX_RETRIES
            then callGroq_while w prompt pers len mdl tried (attempt + 1)
                   (tr @ [Fetch (request_of w prompt pers len mdl), Delay (delayMs attempt)])
            else (Throw e, tr @ [Fetch (request_of w prompt pers len mdl)])
        | Eligible st errorData \<Rightarrow>
            if in_FREE_MODELS mdl \<and> \<not> Set_has tried mdl then
              (case fallbackModel_of (Set_add tried mdl) of
                 None \<Rightarrow>
                   (Throw (api_error st errorData), tr @ [Fetch (request_of w prompt pers len mdl)])
               | Some fallbackModel \<Rightarrow>
                   (case callGroq w prompt pers len fallbackModel (Array_from (Set_add tried mdl))
                           (tr @ [Fetch (request_of w prompt pers len mdl)]) of
                      (Throw e, tr2) \<Rightarrow>
                        if isNetworkError e \<and> attempt \<noteq> MAX_RETRIES
                        then callGroq_while w prompt pers len mdl (Set_add tried mdl) (attempt + 1)
                               (tr2 @ [Delay (delayMs attempt)])
                        else (Throw e, tr2)
                    | (res, tr2) \<Rightarrow> (res, tr2)))
            else (Throw (api_error st errorData), tr @ [Fetch (request_of w prompt pers len mdl)]))"
proof (cases "attempt \<le> MAX_RETRIES")
  case False
  then show ?thesis by (simp add: while_past_limit)
next
  case le: True
  show ?thesis
  proof (cases "fetch w tr (request_of w prompt pers len mdl)")
    case (Rejects e)
    then show ?thesis using le by (simp add: while_throws attempt_result_def)
  next
    case (Resolves r)
    show ?thesis
    proof (cases "response_ok r")
      case ok: True
      show ?thesis
      proof (cases "body_json r")
        case (Inl e)
        then show ?thesis using le Resolves ok
          by (simp add: while_json_throws attempt_result_def)
      next
        case (Inr data)
        show ?thesis
        proof (cases "message_content data = None \<or> (\<exists>c. message_content data = Some c \<and> \<not> truthy c)")
          case True
          from while_missing_content[OF le Resolves ok Inr True] True show ?thesis
            using le Resolves ok Inr
            by (auto simp: attempt_result_def not_network_missing_content)
        next
          case False
          then obtain c where c: "message_content data = Some c" "truthy c" by auto
          from while_returns[OF le Resolves ok Inr c] show ?thesis
            using le Resolves ok Inr c by (simp add: attempt_result_def)
        qed
      qed
    next
      case nok: False
      show ?thesis
      proof (cases "body_text r")
        case (Inl e)
        then show ?thesis using le Resolves nok
          by (simp add: while_text_throws attempt_result_def)
      next
        case (Inr errorData)
        show ?thesis
        proof (cases "fallback_status (status r) \<and> in_FREE_MODELS mdl \<and> \<not> Set_has tried mdl")
          case False
          from while_rejected_terminal[OF le Resolves nok Inr False] False show ?thesis
            using le Resolves nok Inr
            by (auto simp: attempt_result_def not_network_api_error)
        next
          case True
          show ?thesis
          proof (cases "fallbackModel_of (Set_add tried mdl)")
            case None
            from while_exhausted[OF le Resolves nok Inr _ _ _ None] True show ?thesis
              using le Resolves nok Inr None by (simp add: attempt_result_def)
          next
            case (Some fb)
            from while_fallback[OF le Resolves nok Inr _ _ _ Some] True show ?thesis
              using le Resolves nok Inr Some by (simp add: attempt_result_def)
          qed
        qed
      qed
    qed
  qed
qed


text \<open>
  Induction over the calls of the loop: a retry of the same frame, the frame of the
  fallback model, and the retry that follows when that frame throws.
\<close>

lemma frame_induct [case_names past returned thrown rejected fallback]:
  fixes w :: world and prompt :: string and pers :: personality and len :: string
    and P :: "string \<Rightarrow> string list \<Rightarrow> nat \<Rightarrow> event list \<Rightarrow> bool"
  assumes past: "\<And>mdl tried a tr. \<not> a \<le> MAX_RETRIES \<Longrightarrow> P mdl tried a tr"
    and returned: "\<And>mdl tried a tr c.
      a \<le> MAX_RETRIES \<Longrightarrow>
      attempt_result (fetch w tr (request_of w prompt pers len mdl)) = Returned c \<Longrightarrow>
      P mdl tried a tr"
    and thrown: "\<And>mdl tried a tr e.
      a \<le> MAX_RETRIES \<Longrightarrow>
      attempt_result (fetch w tr (request_of w prompt pers len mdl)) = Thrown e \<Longrightarrow>
      (isNetworkError e \<Longrightarrow> a \<noteq> MAX_RETRIES \<Longrightarrow>
         P mdl tried (a + 1) (tr @ [Fetch (request_of w prompt pers len mdl), Delay (delayMs a)])) \<Longrightarrow>
      P mdl tried a tr"
    and rejected: "\<And>mdl tried a tr st txt.
      a \<le> MAX_RETRIES \<Longrightarrow>
      attempt_result (fetch w tr (request_of w prompt pers len mdl)) = Eligible st txt \<Longrightarrow>
      \<not> (in_FREE_MODELS mdl \<and> \<not> Set_has tried mdl) \<or> fallbackModel_of (Set_add tried mdl) = None \<Longrightarrow>
      P mdl tried a tr"
    and fallback: "\<And>mdl tried a tr st txt fb.
      a \<le> MAX_RETRIES \<Longrightarrow>
      attempt_result (fetch w tr (request_of w prompt pers len mdl)) = Eligible st txt \<Longrightarrow>
      in_FREE_MODELS mdl \<Longrightarrow> \<not> Set_has tried mdl \<Longrightarrow>
      fallbackModel_of (Set_add tried mdl) = Some fb \<Longrightarrow>
      P fb (new_Set (Array_from (Set_add tried mdl))) 0
        (tr @ [Fetch (request_of w prompt pers len mdl)]) \<Longrightarrow>
      (\<And>e tr2.
         callGroq w prompt pers len fb (Array_from (Set_add tried mdl))
           (tr @ [Fetch (request_of w prompt pers len mdl)]) = (Throw e, tr2) \<Longrightarrow>
         isNetworkError e \<Longrightarrow> a \<noteq> MAX_RETRIES \<Longrightarrow>
         P mdl (Set_add tried mdl) (a + 1) (tr2 @ [Delay (delayMs a)])) \<Longrightarrow>
      P mdl tried a tr"
  shows "P mdl tried a tr"
proof -
  have "\<forall>mdl tried a tr.
          untried tried * (MAX_RETRIES + 2) + (MAX_RETRIES + 1 - a) = n \<longrightarrow> P mdl tried a tr" for n
  proof (induction n rule: less_induct)
  case (less n)
  show ?case
  proof (intro allI impI)
  fix mdl tried a tr
  assume n: "untried tried * (MAX_RETRIES + 2) + (MAX_RETRIES + 1 - a) = n"
  have IH: "P mdl' tried' a' tr'"
    if "untried tried' * (MAX_RETRIES + 2) + (MAX_RETRIES + 1 - a') < n" for mdl' tried' a' tr'
    using less.IH[OF that] by blast
  show "P mdl tried a tr"
  proof (cases "a \<le> MAX_RETRIES")
    case False
    then show ?thesis by (rule past)
  next
    case le: True
    show ?thesis
    proof (cases "attempt_result (fetch w tr (request_of w prompt pers len mdl))")
      case (Returned c)
      with le show ?thesis by (rule returned)
    next
      case (Thrown e)
      have "P mdl tried (a + 1) (tr @ [Fetch (request_of w prompt pers len mdl), Delay (delayMs a)])"
        using le n by (intro IH) (simp add: MAX_RETRIES_def)
      then show ?thesis by (rule thrown[OF le Thrown])
    next
      case (Eligible st errorData)
      show ?thesis
      proof (cases "in_FREE_MODELS mdl \<and> \<not> Set_has tried mdl")
        case False
        then show ?thesis by (rule rejected[OF le Eligible disjI1])
      next
        case can: True
        show ?thesis
        proof (cases "fallbackModel_of (Set_add tried mdl)")
          case None
          then show ?thesis by (rule rejected[OF le Eligible disjI2])
        next
          case (Some fb)
          have "untried (new_Set (Array_from (Set_add tried mdl))) < untried tried"
            using can by (intro untried_add) (simp_all add: Set_has_def)
          then have child: "P fb (new_Set (Array_from (Set_add tried mdl))) 0
                              (tr @ [Fetch (request_of w prompt pers len mdl)])"
            using le n by (intro IH) (simp add: MAX_RETRIES_def)
          have "untried (Set_add tried mdl) \<le> untried tried"
            by (rule untried_mono) (auto simp: set_Set_add)
          then have again: "P mdl (Set_add tried mdl) (a + 1) tr'" for tr'
            using le n by (intro IH) (simp add: MAX_RETRIES_def)
          from can have "in_FREE_MODELS mdl" and "\<not> Set_has tried mdl"
            by simp_all
          then show ?thesis
            by (rule fallback[OF le Eligible _ _ Some child again])
        qed
      qed
    qed
  qed
  qed
  qed
  then show ?thesis by simp
qed


text \<open>A call only adds to the history.\<close>

lemma snd_while_extends:
  "\<exists>evs. snd (callGroq_while w prompt pers len mdl tried a tr) = tr @ evs"
proof (induction mdl tried a tr rule: frame_induct[of _ w prompt pers len])
  case (past mdl tried a tr)
  then show ?case by (simp add: while_past_limit)
next
  case (returned mdl tried a tr c)
  then show ?case by (subst while_cases) simp
next
  case (thrown mdl tried a tr e)
  then show ?case by (subst while_cases) auto
next
  case (rejected mdl tried a tr st errorData)
  then show ?case by (subst while_cases) auto
next
  case (fallback mdl tried a tr st errorData fb)
  then show ?case
    by (subst while_cases) (auto simp: callGroq_def split: prod.splits outcome.splits)
qed

text \<open>The loop's equation with the request folded, for running the loop on a given world.\<close>

lemma while_step:
  "callGroq_while w prompt pers len mdl triedModelsSet attempt tr =
     (if \<not> attempt \<le> MAX_RETRIES then (ReturnUndefined, tr)
      else
        let req = request_of w prompt pers len mdl;
            tr1 = tr @ [Fetch req];
            (res, tried', tr') =
              (case fetch w tr req of
                 Rejects e \<Rightarrow> (Throw e, triedModelsSet, tr1)
               | Resolves r \<Rightarrow>
                   if \<not> response_ok r then
                     (case body_text r of
                        Inl e \<Rightarrow> (Throw e, triedModelsSet, tr1)
                      | Inr errorData \<Rightarrow>
                          if (status r = 404 \<or> status r = 429 \<or> status r = 503)
                             \<and> in_FREE_MODELS mdl \<and> \<not> Set_has triedModelsSet mdl
                          then
                            let tried2 = Set_add triedModelsSet mdl in
                            (case fallbackModel_of tried2 of
                               Some fallbackModel \<Rightarrow>
                                 (case callGroq_while w prompt pers len fallbackModel
                                         (new_Set (Array_from tried2)) 0 tr1 of
                                    (res2, tr2) \<Rightarrow> (res2, tried2, tr2))
                             | None \<Rightarrow> (Throw (api_error (status r) errorData), tried2, tr1))
                          else (Throw (api_error (status r) errorData), triedModelsSet, tr1))
                   else
                     (case body_json r of
                        Inl e \<Rightarrow> (Throw e, triedModelsSet, tr1)
                      | Inr data \<Rightarrow>
                          (case message_content data of
                             None \<Rightarrow> (Throw missing_content, triedModelsSet, tr1)
                           | Some c \<Rightarrow>
                               if \<not> truthy c then (Throw missing_content, triedModelsSet, tr1)
                               else (Return c, triedModelsSet, tr1))))
        in case res of
             Throw error \<Rightarrow>
               if isNetworkError error \<and> \<not> attempt = MAX_RETRIES
               then callGroq_while w prompt pers len mdl tried' (attempt + 1)
                      (tr' @ [Delay (delayMs attempt)])
               else (Throw error, tr')
           | _ \<Rightarrow> (res, tr'))"
  unfolding request_of_def delayMs_def by (rule callGroq_while.simps)

lemma model_of_request [simp]: "model (body (request_of w prompt pers len mdl)) = modelId_of mdl"
  by (simp add: request_of_def build_request_def)

lemmas run_defs =
  complete_call_def callGroq_def while_step Let_def new_Set_def Set_add_def Set_has_def Array_from_def
  MAX_RETRIES_def INITIAL_RETRY_DELAY_MS_def delayMs_def response_ok_def in_FREE_MODELS_def
  FREE_MODELS_def Object_prototype_def fallbackModel_of_def MODEL_FALLBACK_ORDER_def
  isNetworkError_def modelId_of_def FREE_MODELS_get_def message_content_def
  rejection_def completion_def fetch_failed_def not_json_def

section \<open>The requests of a call\<close>

lemma events_of_while:
  "\<forall>e \<in> set (snd (callGroq_while w prompt pers len mdl tried a tr)).
     e \<in> set tr \<or> (\<exists>m. e = Fetch (request_of w prompt pers len m)) \<or> (\<exists>d. e = Delay d)"
proof (induction mdl tried a tr rule: frame_induct[of _ w prompt pers len])
  case (past mdl tried a tr)
  then show ?case by (simp add: while_past_limit)
next
  case (returned mdl tried a tr c)
  then show ?case by (subst while_cases) auto
next
  case (thrown mdl tried a tr e)
  then show ?case by (subst while_cases) auto
next
  case (rejected mdl tried a tr st errorData)
  then show ?case by (subst while_cases) auto
next
  case (fallback mdl tried a tr st errorData fb)
  show ?case
  proof (cases "callGroq w prompt pers len fb (Array_from (Set_add tried mdl))
                  (tr @ [Fetch (request_of w prompt pers len mdl)])")
    case (Pair res tr2)
    have child: "\<forall>e \<in> set tr2.
       e \<in> set tr \<or> (\<exists>m. e = Fetch (request_of w prompt pers len m)) \<or> (\<exists>d. e = Delay d)"
      using fallback(6) Pair by (auto simp: callGroq_def)
    show ?thesis
    proof (cases "\<exists>e. res = Throw e \<and> isNetworkError e \<and> a \<noteq> MAX_RETRIES")
      case True
      then obtain e where e: "res = Throw e" "isNetworkError e" "a \<noteq> MAX_RETRIES" by blast
      have "callGroq_while w prompt pers len mdl tried a tr =
            callGroq_while w prompt pers len mdl (Set_add tried mdl) (a + 1) (tr2 @ [Delay (delayMs a)])"
        using fallback(1-5) Pair e by (subst while_cases) simp
      moreover have "\<forall>e \<in> set (snd (callGroq_while w prompt pers len mdl (Set_add tried mdl) (a + 1) (tr2 @ [Delay (delayMs a)]))).
         e \<in> set (tr2 @ [Delay (delayMs a)]) \<or> (\<exists>m. e = Fetch (request_of w prompt pers len m)) \<or> (\<exists>d. e = Delay d)"
        using fallback(7) Pair e by simp
      ultimately show ?thesis using child by auto
    next
      case False
      then have "callGroq_while w prompt pers len mdl tried a tr = (res, tr2)"
        using fallback(1-5) Pair by (subst while_cases) (auto split: outcome.splits)
      then show ?thesis using child by simp
    qed
  qed
qed


lemma fallback_outcome:
  assumes "a \<le> MAX_RETRIES"
    and "attempt_result (fetch w tr (request_of w prompt pers len mdl)) = Eligible st errorData"
    and "in_FREE_MODELS mdl" and "\<not> Set_has tried mdl"
    and "fallbackModel_of (Set_add tried mdl) = Some fb"
    and "callGroq w prompt pers len fb (Array_from (Set_add tried mdl))
           (tr @ [Fetch (request_of w prompt pers len mdl)]) = (res, tr2)"
  obtains (again) e where "res = Throw e" and "isNetworkError e" and "a \<noteq> MAX_RETRIES"
      and "callGroq_while w prompt pers len mdl tried a tr =
           callGroq_while w prompt pers len mdl (Set_add tried mdl) (a + 1)
             (tr2 @ [Delay (delayMs a)])"
    | (final) "\<not> (\<exists>e. res = Throw e \<and> isNetworkError e \<and> a \<noteq> MAX_RETRIES)"
      and "callGroq_while w prompt pers len mdl tried a tr = (res, tr2)"
proof (cases "\<exists>e. res = Throw e \<and> isNetworkError e \<and> a \<noteq> MAX_RETRIES")
  case True
  then obtain e where e: "res = Throw e" "isNetworkError e" "a \<noteq> MAX_RETRIES" by blast
  have "callGroq_while w prompt pers len mdl tried a tr =
        callGroq_while w prompt pers len mdl (Set_add tried mdl) (a + 1) (tr2 @ [Delay (delayMs a)])"
    using assms e by (subst while_cases) simp
  with e show ?thesis by (rule again)
next
  case False
  then have "callGroq_while w prompt pers len mdl tried a tr = (res, tr2)"
    using assms by (subst while_cases) (auto split: outcome.splits)
  with False show ?thesis by (rule final)
qed

text \<open>
  C9. Every request of a call carries exactly two messages, the system message with the
  persona's style instruction and the user message with the prompt, the temperature 0.7,
  and as token bound the budget of the length tier (150, 300 or 500), or 300 when the
  length is not one of the three tiers.
\<close>

theorem request_shape:
  assumes "Fetch rq \<in> set (snd (complete_call w prompt pers len startAlias))"
  shows "messages (body rq) =
           [\<lparr>role = ''system'', content = style pers\<rparr>, \<lparr>role = ''user'', content = prompt\<rparr>]
         \<and> temperature (body rq) = 7 / 10
         \<and> max_tokens (body rq) =
             (if len = ''short'' then 150 else if len = ''medium'' then 300
              else if len = ''long'' then 500 else 300)"
proof -
  from assms events_of_while[of w prompt pers len startAlias "new_Set []" 0 "[]"]
  obtain m where "rq = request_of w prompt pers len m"
    by (auto simp: complete_call_def callGroq_def)
  then show ?thesis
    by (simp add: request_of_def build_request_def maxTokens_of_def RESPONSE_LENGTHS_def)
qed

theorem request_shape_witness:
  "Fetch (request_of w_second_answers ''Topic'' pro ''short'' ''llama32'')
     \<in> set (snd (complete_call w_second_answers ''Topic'' pro ''short'' ''llama32'')) \<and>
   messages (body (request_of w_second_answers ''Topic'' pro ''short'' ''llama32'')) =
     [\<lparr>role = ''system'', content = ''Argue in favor.''\<rparr>, \<lparr>role = ''user'', content = ''Topic''\<rparr>] \<and>
   temperature (body (request_of w_second_answers ''Topic'' pro ''short'' ''llama32'')) = 7 / 10 \<and>
   max_tokens (body (request_of w_second_answers ''Topic'' pro ''short'' ''llama32'')) = 150"
proof -
  have mem: "Fetch (request_of w_second_answers ''Topic'' pro ''short'' ''llama32'')
     \<in> set (snd (complete_call w_second_answers ''Topic'' pro ''short'' ''llama32''))"
    by (simp add: run_defs w_second_answers_def)
  from request_shape[OF mem] mem show ?thesis by (simp add: pro_def)
qed

section \<open>Retries after transport failures\<close>

lemma upt_shift: "[a..<a + Suc n] = a # [Suc a..<Suc a + n]"
  by (simp del: upt_Suc add: upt_conv_Cons)

lemma retries_0 [simp]: "retries rq a 0 = []"
  by (simp add: retries_def)

lemma retries_Suc: "retries rq a (Suc n) = Fetch rq # Delay (delayMs a) # retries rq (Suc a) n"
  unfolding retries_def upt_shift by simp

lemma fetches_simps [simp]:
  "fetches [] = []" "fetches (Fetch rq # tr) = rq # fetches tr" "fetches (Delay d # tr) = fetches tr"
  by (simp_all add: fetches_def)

lemma delays_simps [simp]:
  "delays [] = []" "delays (Fetch rq # tr) = delays tr" "delays (Delay d # tr) = d # delays tr"
  by (simp_all add: delays_def)

lemma transport_failure_result:
  "transport_failure fr \<Longrightarrow> \<exists>e. attempt_result fr = Thrown e \<and> fr = Rejects e \<and> isNetworkError e"
  by (cases fr) (auto simp: transport_failure_def attempt_result_def)

lemma answers_with_result: "answers_with c fr \<Longrightarrow> attempt_result fr = Returned c"
  by (cases fr) (auto simp: answers_with_def attempt_result_def split: sum.splits)

lemma retried_until_answer:
  assumes "a + n \<le> MAX_RETRIES"
    and "\<forall>i<n. transport_failure
                 (fetch w (tr @ retries (request_of w prompt pers len mdl) a i)
                    (request_of w prompt pers len mdl))"
    and "answers_with c
           (fetch w (tr @ retries (request_of w prompt pers len mdl) a n)
              (request_of w prompt pers len mdl))"
  shows "callGroq_while w prompt pers len mdl tried a tr =
           (Return c, tr @ retries (request_of w prompt pers len mdl) a n
                         @ [Fetch (request_of w prompt pers len mdl)])"
  using assms
proof (induction n arbitrary: a tr)
  case 0
  then show ?case
    by (subst while_cases) (simp add: answers_with_result)
next
  case (Suc n)
  let ?rq = "request_of w prompt pers len mdl"
  from Suc.prems(2) have "transport_failure (fetch w (tr @ retries ?rq a 0) ?rq)"
    by blast
  then obtain e where e: "attempt_result (fetch w tr ?rq) = Thrown e" "isNetworkError e"
    using transport_failure_result by fastforce
  have step: "callGroq_while w prompt pers len mdl tried a tr =
              callGroq_while w prompt pers len mdl tried (Suc a) (tr @ [Fetch ?rq, Delay (delayMs a)])"
    using Suc.prems(1) e by (subst while_cases) simp
  have "callGroq_while w prompt pers len mdl tried (Suc a) (tr @ [Fetch ?rq, Delay (delayMs a)]) =
          (Return c, (tr @ [Fetch ?rq, Delay (delayMs a)]) @ retries ?rq (Suc a) n @ [Fetch ?rq])"
  proof (rule Suc.IH)
    show "Suc a + n \<le> MAX_RETRIES" using Suc.prems(1) by simp
    show "\<forall>i<n. transport_failure
            (fetch w ((tr @ [Fetch ?rq, Delay (delayMs a)]) @ retries ?rq (Suc a) i) ?rq)"
    proof (intro allI impI)
      fix i assume "i < n"
      then have "transport_failure (fetch w (tr @ retries ?rq a (Suc i)) ?rq)"
        using Suc.prems(2) by simp
      then show "transport_failure
            (fetch w ((tr @ [Fetch ?rq, Delay (delayMs a)]) @ retries ?rq (Suc a) i) ?rq)"
        by (simp add: retries_Suc)
    qed
    show "answers_with c
            (fetch w ((tr @ [Fetch ?rq, Delay (delayMs a)]) @ retries ?rq (Suc a) n) ?rq)"
      using Suc.prems(3) by (simp add: retries_Suc)
  qed
  with step show ?case by (simp add: retries_Suc)
qed

lemma delays_retries: "delays (retries rq a n) = map delayMs [a..<a + n]"
proof (induction n arbitrary: a)
  case 0
  then show ?case by simp
next
  case (Suc n)
  have "delays (retries rq a (Suc n)) = delayMs a # delays (retries rq (Suc a) n)"
    by (simp add: retries_Suc)
  then show ?case unfolding upt_shift using Suc[of "Suc a"] by simp
qed

lemma delays_append: "delays (xs @ ys) = delays xs @ delays ys"
  by (simp add: delays_def)

lemma fetches_append: "fetches (xs @ ys) = fetches xs @ fetches ys"
  by (simp add: fetches_def)

lemma fetches_retries: "fetches (retries rq a n) = replicate n rq"
proof (induction n arbitrary: a)
  case 0
  then show ?case by simp
next
  case (Suc n)
  have "fetches (retries rq a (Suc n)) = rq # fetches (retries rq (Suc a) n)"
    by (simp add: retries_Suc)
  then show ?case using Suc[of "Suc a"] by simp
qed

text \<open>
  C3. When the first \<open>n \<le> 3\<close> attempts fail at transport level and the next one is
  answered with a text, the call returns that text after \<open>n + 1\<close> requests for the same
  model; before retry \<open>k\<close> it waits \<open>1000 * 2 ^ (k - 1)\<close> ms, at most 7000 ms in all.
\<close>

theorem transport_retries_then_success:
  assumes "n \<le> 3"
    and "\<forall>i<n. transport_failure
                 (fetch w (retries (request_of w prompt pers len startAlias) 0 i)
                    (request_of w prompt pers len startAlias))"
    and "answers_with c
           (fetch w (retries (request_of w prompt pers len startAlias) 0 n)
              (request_of w prompt pers len startAlias))"
  shows "fst (complete_call w prompt pers len startAlias) = Return c
       \<and> fetches (snd (complete_call w prompt pers len startAlias))
           = replicate (n + 1) (request_of w prompt pers len startAlias)
       \<and> delays (snd (complete_call w prompt pers len startAlias))
           = map (\<lambda>k. 1000 * 2 ^ (k - 1)) [1..<n + 1]
       \<and> sum_list (delays (snd (complete_call w prompt pers len startAlias))) \<le> 1000 + 2000 + 4000"
proof -
  let ?rq = "request_of w prompt pers len startAlias"
  have run: "complete_call w prompt pers len startAlias = (Return c, retries ?rq 0 n @ [Fetch ?rq])"
    using retried_until_answer[of 0 n w "[]" prompt pers len startAlias c "new_Set []"] assms
    by (simp add: complete_call_def callGroq_def MAX_RETRIES_def)
  have d: "delays (retries ?rq 0 n @ [Fetch ?rq]) = map delayMs [0..<n]"
    by (simp add: delays_append delays_retries)
  have m: "map delayMs [0..<n] = map (\<lambda>k. 1000 * 2 ^ (k - 1)) [1..<n + 1]"
    by (induction n) (simp_all add: delayMs_def INITIAL_RETRY_DELAY_MS_def)
  have "n = 0 \<or> n = 1 \<or> n = 2 \<or> n = 3" using assms(1) by auto
  then have s: "sum_list (map delayMs [0..<n]) \<le> 1000 + 2000 + 4000"
    by (auto simp: delayMs_def INITIAL_RETRY_DELAY_MS_def upt_conv_Cons numeral_eq_Suc)
  have f: "fetches (retries ?rq 0 n @ [Fetch ?rq]) = replicate (n + 1) ?rq"
    by (simp add: fetches_append fetches_retries replicate_append_same)
  from run d m s f show ?thesis by simp
qed

lemma length_retries [simp]: "length (retries rq a n) = 2 * n"
  by (induction n arbitrary: a) (simp_all add: retries_Suc)

theorem transport_retries_then_success_witness:
  "transport_failure
      (fetch w_flaky (retries (request_of w_flaky ''Topic'' pro ''short'' ''llama33'') 0 0)
         (request_of w_flaky ''Topic'' pro ''short'' ''llama33'')) \<and>
   transport_failure
      (fetch w_flaky (retries (request_of w_flaky ''Topic'' pro ''short'' ''llama33'') 0 1)
         (request_of w_flaky ''Topic'' pro ''short'' ''llama33'')) \<and>
   transport_failure
      (fetch w_flaky (retries (request_of w_flaky ''Topic'' pro ''short'' ''llama33'') 0 2)
         (request_of w_flaky ''Topic'' pro ''short'' ''llama33'')) \<and>
   answers_with (JStr ''Hello'')
      (fetch w_flaky (retries (request_of w_flaky ''Topic'' pro ''short'' ''llama33'') 0 3)
         (request_of w_flaky ''Topic'' pro ''short'' ''llama33'')) \<and>
   fst (complete_call w_flaky ''Topic'' pro ''short'' ''llama33'') = Return (JStr ''Hello'') \<and>
   length (fetches (snd (complete_call w_flaky ''Topic'' pro ''short'' ''llama33''))) = 4 \<and>
   delays (snd (complete_call w_flaky ''Topic'' pro ''short'' ''llama33'')) = [1000, 2000, 4000]"
proof -
  let ?rq = "request_of w_flaky ''Topic'' pro ''short'' ''llama33''"
  have f: "\<forall>i<3. transport_failure (fetch w_flaky (retries ?rq 0 i) ?rq)"
    by (simp add: w_flaky_def transport_failure_def fetch_failed_def isNetworkError_def)
  have s: "answers_with (JStr ''Hello'') (fetch w_flaky (retries ?rq 0 3) ?rq)"
    by (simp add: w_flaky_def answers_with_def completion_def response_ok_def message_content_def)
  have g: "transport_failure (fetch w_flaky (retries ?rq 0 0) ?rq)"
    "transport_failure (fetch w_flaky (retries ?rq 0 1) ?rq)"
    "transport_failure (fetch w_flaky (retries ?rq 0 2) ?rq)"
    by (simp_all add: w_flaky_def transport_failure_def fetch_failed_def isNetworkError_def)
  have u: "[Suc 0..<4] = [Suc 0, 2, 3]"
    by code_simp
  from transport_retries_then_success[of 3 w_flaky "''Topic''" pro "''short''" "''llama33''" "JStr ''Hello''", OF _ f s]
  have "fst (complete_call w_flaky ''Topic'' pro ''short'' ''llama33'') = Return (JStr ''Hello'')"
    and "length (fetches (snd (complete_call w_flaky ''Topic'' pro ''short'' ''llama33''))) = 4"
    and "delays (snd (complete_call w_flaky ''Topic'' pro ''short'' ''llama33'')) = [1000, 2000, 4000]"
    by (simp_all add: u)
  with g s show ?thesis by blast
qed

text \<open>When every attempt of a frame fails at transport level, the frame throws the last
  failure after \<open>MAX_RETRIES + 1\<close> requests for its own model.\<close>

lemma retried_until_exhausted:
  assumes "a + n = MAX_RETRIES"
    and "\<forall>i\<le>n. transport_failure
                 (fetch w (tr @ retries (request_of w prompt pers len mdl) a i)
                    (request_of w prompt pers len mdl))"
  shows "\<exists>e. callGroq_while w prompt pers len mdl tried a tr =
           (Throw e, tr @ retries (request_of w prompt pers len mdl) a n
                        @ [Fetch (request_of w prompt pers len mdl)])
       \<and> fetch w (tr @ retries (request_of w prompt pers len mdl) a n)
            (request_of w prompt pers len mdl) = Rejects e
       \<and> isNetworkError e"
  using assms
proof (induction n arbitrary: a tr)
  case 0
  let ?rq = "request_of w prompt pers len mdl"
  from 0(2) have "transport_failure (fetch w tr ?rq)" by simp
  then obtain e where e: "attempt_result (fetch w tr ?rq) = Thrown e" "fetch w tr ?rq = Rejects e"
      "isNetworkError e"
    using transport_failure_result by blast
  have "callGroq_while w prompt pers len mdl tried a tr = (Throw e, tr @ [Fetch ?rq])"
    using 0(1) e by (subst while_cases) simp
  with e show ?case by simp
next
  case (Suc n)
  let ?rq = "request_of w prompt pers len mdl"
  let ?tr' = "tr @ [Fetch ?rq, Delay (delayMs a)]"
  from Suc.prems(2) have "transport_failure (fetch w (tr @ retries ?rq a 0) ?rq)"
    by blast
  then obtain e where e: "attempt_result (fetch w tr ?rq) = Thrown e" "isNetworkError e"
    using transport_failure_result by fastforce
  have step: "callGroq_while w prompt pers len mdl tried a tr =
              callGroq_while w prompt pers len mdl tried (Suc a) ?tr'"
    using Suc.prems(1) e by (subst while_cases) simp
  have "\<exists>e. callGroq_while w prompt pers len mdl tried (Suc a) ?tr' =
           (Throw e, ?tr' @ retries ?rq (Suc a) n @ [Fetch ?rq])
        \<and> fetch w (?tr' @ retries ?rq (Suc a) n) ?rq = Rejects e \<and> isNetworkError e"
  proof (rule Suc.IH)
    show "Suc a + n = MAX_RETRIES" using Suc.prems(1) by simp
    show "\<forall>i\<le>n. transport_failure (fetch w (?tr' @ retries ?rq (Suc a) i) ?rq)"
    proof (intro allI impI)
      fix i assume "i \<le> n"
      then have "transport_failure (fetch w (tr @ retries ?rq a (Suc i)) ?rq)"
        using Suc.prems(2) by simp
      then show "transport_failure (fetch w (?tr' @ retries ?rq (Suc a) i) ?rq)"
        by (simp add: retries_Suc)
    qed
  qed
  with step show ?case by (simp add: retries_Suc)
qed

section \<open>How many requests a call sends\<close>

lemma filter_insert_less:
  "m \<in> set ks \<Longrightarrow> m \<notin> S \<Longrightarrow>
   length (filter (\<lambda>k. k \<notin> insert m S) ks) < length (filter (\<lambda>k. k \<notin> S) ks)"
proof (induction ks)
  case Nil
  then show ?case by simp
next
  case (Cons k ks)
  have le: "length (filter (\<lambda>k. k \<notin> insert m S) ks) \<le> length (filter (\<lambda>k. k \<notin> S) ks)"
    by (induction ks) auto
  show ?case
  proof (cases "k = m")
    case True
    then show ?thesis using le Cons.prems(2) by simp
  next
    case False
    then have "m \<in> set ks" using Cons.prems(1) by simp
    then show ?thesis using Cons.IH Cons.prems(2) by simp
  qed
qed

lemma fallbackModel_of_Some:
  "fallbackModel_of s = Some fb \<Longrightarrow> fb \<in> set MODEL_FALLBACK_ORDER \<and> fb \<notin> set s"
  by (auto simp: fallbackModel_of_def Set_has_def find_Some_iff)


lemma untried_order_fallback:
  assumes "fallbackModel_of s = Some fb"
  shows "untried_order (Set_add (new_Set (Array_from s)) fb) < untried_order s"
  using filter_insert_less[of fb MODEL_FALLBACK_ORDER "set s"] fallbackModel_of_Some[OF assms]
  by (simp add: untried_order_def set_Set_add set_new_Set Array_from_def)

lemma fetch_count_while:
  "length (fetches (snd (callGroq_while w prompt pers len mdl tried a tr)))
     \<le> length (fetches tr) + (MAX_RETRIES + 1 - a)
        + (MAX_RETRIES + 1) *
          (if in_FREE_MODELS mdl \<and> \<not> Set_has tried mdl then untried_order (Set_add tried mdl) else 0)"
proof (induction mdl tried a tr rule: frame_induct[of _ w prompt pers len])
  case (past mdl tried a tr)
  then show ?case by (simp add: while_past_limit)
next
  case (returned mdl tried a tr c)
  then show ?case by (subst while_cases) (simp add: fetches_append)
next
  case (thrown mdl tried a tr e)
  show ?case
  proof (cases "isNetworkError e \<and> a \<noteq> MAX_RETRIES")
    case True
    with thrown(1,2) have "callGroq_while w prompt pers len mdl tried a tr =
        callGroq_while w prompt pers len mdl tried (a + 1)
          (tr @ [Fetch (request_of w prompt pers len mdl), Delay (delayMs a)])"
      by (subst while_cases) simp
    with thrown(3) True thrown(1) show ?thesis by (simp add: fetches_append)
  next
    case False
    with thrown(1,2) have "callGroq_while w prompt pers len mdl tried a tr =
        (Throw e, tr @ [Fetch (request_of w prompt pers len mdl)])"
      by (subst while_cases) auto
    with thrown(1) show ?thesis by (simp add: fetches_append)
  qed
next
  case (rejected mdl tried a tr st errorData)
  then have "callGroq_while w prompt pers len mdl tried a tr =
        (Throw (api_error st errorData), tr @ [Fetch (request_of w prompt pers len mdl)])"
    by (subst while_cases) auto
  with rejected(1) show ?case by (simp add: fetches_append)
next
  case (fallback mdl tried a tr st errorData fb)
  let ?tr1 = "tr @ [Fetch (request_of w prompt pers len mdl)]"
  let ?U = "untried_order (Set_add tried mdl)"
  obtain res tr2 where child:
    "callGroq w prompt pers len fb (Array_from (Set_add tried mdl)) ?tr1 = (res, tr2)"
    by (cases "callGroq w prompt pers len fb (Array_from (Set_add tried mdl)) ?tr1")
  have less: "untried_order (Set_add (new_Set (Array_from (Set_add tried mdl))) fb) < ?U"
    using fallback(5) by (rule untried_order_fallback)
  have "length (fetches tr2)
          \<le> length (fetches ?tr1) + (MAX_RETRIES + 1)
             + (MAX_RETRIES + 1) * untried_order (Set_add (new_Set (Array_from (Set_add tried mdl))) fb)"
    using fallback(6) child by (simp add: callGroq_def split: if_splits)
  also have "\<dots> \<le> length (fetches ?tr1) + (MAX_RETRIES + 1) * ?U"
    using less by (simp add: MAX_RETRIES_def)
  finally have c: "length (fetches tr2) \<le> length (fetches tr) + 1 + (MAX_RETRIES + 1) * ?U"
    by (simp add: fetches_append)
  from fallback(1-5) child show ?case
  proof (cases rule: fallback_outcome)
    case (again e)
    have "Set_has (Set_add tried mdl) mdl"
      by (simp add: Set_has_def set_Set_add)
    with fallback(7)[OF child[unfolded again(1)] again(2,3)]
    have "length (fetches (snd (callGroq_while w prompt pers len mdl tried a tr)))
            \<le> length (fetches tr2) + (MAX_RETRIES + 1 - (a + 1))"
      using again(4) by (simp add: fetches_append)
    with c fallback(1,3,4) again(3) show ?thesis by simp
  next
    case final
    with c fallback(1,3,4) show ?thesis by simp
  qed
qed

lemma untried_order_start:
  "untried_order (Set_add (new_Set []) m) \<le> length MODEL_FALLBACK_ORDER"
  "m \<in> set MODEL_FALLBACK_ORDER \<Longrightarrow>
     untried_order (Set_add (new_Set []) m) + 1 \<le> length MODEL_FALLBACK_ORDER"
proof -
  show "untried_order (Set_add (new_Set []) m) \<le> length MODEL_FALLBACK_ORDER"
    by (simp add: untried_order_def)
  assume "m \<in> set MODEL_FALLBACK_ORDER"
  from filter_insert_less[OF this, of "{}"]
  show "untried_order (Set_add (new_Set []) m) + 1 \<le> length MODEL_FALLBACK_ORDER"
    by (simp add: untried_order_def set_Set_add set_new_Set)
qed

lemma fetch_count_complete:
  "length (fetches (snd (complete_call w prompt pers len startAlias)))
     \<le> (MAX_RETRIES + 1) * (length MODEL_FALLBACK_ORDER + 1)"
  "startAlias \<notin> set Object_prototype \<Longrightarrow>
   length (fetches (snd (complete_call w prompt pers len startAlias)))
     \<le> (MAX_RETRIES + 1) * length MODEL_FALLBACK_ORDER"
proof -
  let ?n = "length (fetches (snd (complete_call w prompt pers len startAlias)))"
  let ?U = "untried_order (Set_add (new_Set []) startAlias)"
  have b: "?n \<le> (MAX_RETRIES + 1)
             + (MAX_RETRIES + 1) * (if in_FREE_MODELS startAlias \<and> \<not> Set_has (new_Set []) startAlias
                                    then ?U else 0)"
    using fetch_count_while[of w prompt pers len startAlias "new_Set []" 0 "[]"]
    by (simp add: complete_call_def callGroq_def)
  have "(MAX_RETRIES + 1) * ?U \<le> (MAX_RETRIES + 1) * length MODEL_FALLBACK_ORDER"
    using untried_order_start(1) by (intro mult_le_mono2)
  with b show "?n \<le> (MAX_RETRIES + 1) * (length MODEL_FALLBACK_ORDER + 1)"
    by (simp split: if_splits)
  assume np: "startAlias \<notin> set Object_prototype"
  show "?n \<le> (MAX_RETRIES + 1) * length MODEL_FALLBACK_ORDER"
  proof (cases "in_FREE_MODELS startAlias")
    case True
    with np have "startAlias \<in> set MODEL_FALLBACK_ORDER"
      by (auto simp: in_FREE_MODELS_def FREE_MODELS_def MODEL_FALLBACK_ORDER_def split: if_splits)
    from untried_order_start(2)[OF this]
    have "(MAX_RETRIES + 1) * (?U + 1) \<le> (MAX_RETRIES + 1) * length MODEL_FALLBACK_ORDER"
      by (intro mult_le_mono2)
    with b show ?thesis by (simp split: if_splits)
  next
    case False
    with b show ?thesis by (simp add: MODEL_FALLBACK_ORDER_def)
  qed
qed

section \<open>A success without text\<close>

lemma missing_text_result: "missing_text fr \<Longrightarrow> attempt_result fr = Thrown missing_content"
  by (cases fr) (auto simp: missing_text_def attempt_result_def split: sum.splits option.splits)

lemma split_Cons:
  assumes "x # xs = pre @ z # post"
  obtains (here) "pre = []" and "x = z" and "xs = post"
    | (later) pre' where "pre = x # pre'" and "xs = pre' @ z # post"
  using assms by (cases pre) auto

lemma split_append:
  assumes "xs @ ys = pre @ z # post"
  obtains (left) us where "xs = pre @ z # us" and "post = us @ ys"
    | (right) us where "pre = xs @ us" and "ys = us @ z # post"
  using assms by (auto simp: append_eq_append_conv2 append_eq_Cons_conv Cons_eq_append_conv)

lemma missing_text_ends_while:
  "callGroq_while w prompt pers len mdl tried a tr = (res, tr @ pre @ Fetch rq # post) \<Longrightarrow>
   missing_text (fetch w (tr @ pre) rq) \<Longrightarrow>
   post = [] \<and> res = Throw missing_content"
proof (induction mdl tried a tr arbitrary: res pre post rule: frame_induct[of _ w prompt pers len])
  case (past mdl tried a tr)
  then show ?case by (simp add: while_past_limit)
next
  case (returned mdl tried a tr c)
  from returned(1,2) have "callGroq_while w prompt pers len mdl tried a tr =
      (Return c, tr @ [Fetch (request_of w prompt pers len mdl)])"
    by (subst while_cases) simp
  with returned(3) have "Fetch (request_of w prompt pers len mdl) # [] = pre @ Fetch rq # post"
    by simp
  then show ?case
  proof (cases rule: split_Cons)
    case here
    with returned(2,4) show ?thesis by (simp add: missing_text_result)
  next
    case (later pre')
    then show ?thesis by simp
  qed
next
  case (thrown mdl tried a tr e)
  let ?F = "Fetch (request_of w prompt pers len mdl)"
  show ?case
  proof (cases "isNetworkError e \<and> a \<noteq> MAX_RETRIES")
    case False
    with thrown(1,2) have "callGroq_while w prompt pers len mdl tried a tr = (Throw e, tr @ [?F])"
      by (subst while_cases) auto
    with thrown(4) have eq: "?F # [] = pre @ Fetch rq # post" and res: "res = Throw e"
      by simp_all
    from eq show ?thesis
    proof (cases rule: split_Cons)
      case here
      with thrown(2,5) res show ?thesis by (simp add: missing_text_result)
    next
      case (later pre')
      then show ?thesis by simp
    qed
  next
    case True
    let ?tr' = "tr @ [?F, Delay (delayMs a)]"
    from True thrown(1,2) have step: "callGroq_while w prompt pers len mdl tried a tr =
        callGroq_while w prompt pers len mdl tried (a + 1) ?tr'"
      by (subst while_cases) simp
    have run: "callGroq_while w prompt pers len mdl tried (a + 1) ?tr' =
                 (res, tr @ pre @ Fetch rq # post)"
      using thrown(4) unfolding step .
    obtain evs where "snd (callGroq_while w prompt pers len mdl tried (a + 1) ?tr') = ?tr' @ evs"
      using snd_while_extends by blast
    with run have eq: "?F # Delay (delayMs a) # evs = pre @ Fetch rq # post"
      by simp
    then show ?thesis
    proof (cases rule: split_Cons)
      case here
      with thrown(2,5) True show ?thesis
        by (simp add: missing_text_result not_network_missing_content)
    next
      case (later pre1)
      from later(2) show ?thesis
      proof (cases rule: split_Cons)
        case here
        then show ?thesis by simp
      next
        case inner: (later pre2)
        have "callGroq_while w prompt pers len mdl tried (a + 1) ?tr' =
                (res, ?tr' @ pre2 @ Fetch rq # post)"
          using run later(1) inner(1) by simp
        moreover have "missing_text (fetch w (?tr' @ pre2) rq)"
          using thrown(5) later(1) inner(1) by simp
        ultimately show ?thesis
          using thrown(3) True by blast
      qed
    qed
  qed
next
  case (rejected mdl tried a tr st errorData)
  then have "callGroq_while w prompt pers len mdl tried a tr =
        (Throw (api_error st errorData), tr @ [Fetch (request_of w prompt pers len mdl)])"
    by (subst while_cases) auto
  with rejected(4) have "Fetch (request_of w prompt pers len mdl) # [] = pre @ Fetch rq # post"
    by simp
  then show ?case
  proof (cases rule: split_Cons)
    case here
    with rejected(2,5) show ?thesis by (simp add: missing_text_result)
  next
    case (later pre')
    then show ?thesis by simp
  qed
next
  case (fallback mdl tried a tr st errorData fb)
  let ?F = "Fetch (request_of w prompt pers len mdl)"
  let ?tr1 = "tr @ [?F]"
  obtain resc tr2 where child:
    "callGroq w prompt pers len fb (Array_from (Set_add tried mdl)) ?tr1 = (resc, tr2)"
    by (cases "callGroq w prompt pers len fb (Array_from (Set_add tried mdl)) ?tr1")
  then have child': "callGroq_while w prompt pers len fb (new_Set (Array_from (Set_add tried mdl))) 0 ?tr1
                      = (resc, tr2)"
    by (simp add: callGroq_def)
  obtain evc where evc: "tr2 = ?tr1 @ evc"
    using snd_while_extends[of w prompt pers len fb "new_Set (Array_from (Set_add tried mdl))" 0 ?tr1]
      child' by auto
  have in_child: "us = [] \<and> resc = Throw missing_content"
    if "evc = pre1 @ Fetch rq # us" and "missing_text (fetch w (?tr1 @ pre1) rq)" for pre1 us
    using fallback(6)[of resc pre1 us] child' evc that by simp
  from fallback(1-5) child show ?case
  proof (cases rule: fallback_outcome)
    case final
    with fallback(8) evc have eq: "?F # evc = pre @ Fetch rq # post" and res: "res = resc"
      by simp_all
    from eq show ?thesis
    proof (cases rule: split_Cons)
      case here
      with fallback(2,9) show ?thesis by (simp add: missing_text_result)
    next
      case (later pre1)
      with in_child[of pre1 post] fallback(9) res show ?thesis by simp
    qed
  next
    case (again e)
    let ?tr3 = "tr2 @ [Delay (delayMs a)]"
    obtain evr where evr:
      "snd (callGroq_while w prompt pers len mdl (Set_add tried mdl) (a + 1) ?tr3) = ?tr3 @ evr"
      using snd_while_extends by blast
    have run: "callGroq_while w prompt pers len mdl (Set_add tried mdl) (a + 1) ?tr3 =
                 (res, tr @ pre @ Fetch rq # post)"
      using fallback(8) unfolding again(4) .
    with evr evc
    have eq: "?F # (evc @ Delay (delayMs a) # evr) = pre @ Fetch rq # post"
      by simp
    then show ?thesis
    proof (cases rule: split_Cons)
      case here
      with fallback(2,9) show ?thesis by (simp add: missing_text_result)
    next
      case (later pre1)
      from later(2) show ?thesis
      proof (cases rule: split_append)
        case (left us)
        with in_child[of pre1 us] fallback(9) later(1) again(1,2) show ?thesis
          by (simp add: not_network_missing_content)
      next
        case (right us)
        from right(2) show ?thesis
        proof (cases rule: split_Cons)
          case here
          then show ?thesis by simp
        next
          case inner: (later us')
          have "callGroq_while w prompt pers len mdl (Set_add tried mdl) (a + 1) ?tr3 =
                  (res, ?tr3 @ us' @ Fetch rq # post)"
            using run evc later(1) right(1) inner(1) by simp
          moreover have "missing_text (fetch w (?tr3 @ us') rq)"
            using fallback(9) evc later(1) right(1) inner(1) by simp
          ultimately show ?thesis
            using fallback(7)[OF child[unfolded again(1)] again(2,3)] by blast
        qed
      qed
    qed
  qed
qed

text \<open>
  C5. A request answered with a success status whose body lacks the text field ends the
  call at once: it is the last event of the call (no retry, no fallback, no further request)
  and the call throws the missing-content error. In particular, when the first request is
  answered so, the call consists of that one request.
\<close>

theorem missing_text_is_terminal:
  "(missing_text (fetch w [] (request_of w prompt pers len startAlias)) \<longrightarrow>
      complete_call w prompt pers len startAlias =
        (Throw missing_content, [Fetch (request_of w prompt pers len startAlias)]))
   \<and> (\<forall>res pre rq post.
        complete_call w prompt pers len startAlias = (res, pre @ Fetch rq # post) \<and>
        missing_text (fetch w pre rq) \<longrightarrow>
        post = [] \<and> res = Throw missing_content)"
proof (intro conjI impI allI)
  assume "missing_text (fetch w [] (request_of w prompt pers len startAlias))"
  then have "attempt_result (fetch w [] (request_of w prompt pers len startAlias)) = Thrown missing_content"
    by (rule missing_text_result)
  then show "complete_call w prompt pers len startAlias =
        (Throw missing_content, [Fetch (request_of w prompt pers len startAlias)])"
    unfolding complete_call_def callGroq_def
    by (subst while_cases) (simp add: not_network_missing_content)
next
  fix res pre rq post
  assume "complete_call w prompt pers len startAlias = (res, pre @ Fetch rq # post) \<and>
          missing_text (fetch w pre rq)"
  then show "post = []" and "res = Throw missing_content"
    using missing_text_ends_while[of w prompt pers len startAlias "new_Set []" 0 "[]" res pre rq post]
    by (simp_all add: complete_call_def callGroq_def)
qed

theorem missing_text_is_terminal_witness:
  "missing_text (fetch w_no_text [] (request_of w_no_text ''Topic'' pro ''short'' ''llama33'')) \<and>
   complete_call w_no_text ''Topic'' pro ''short'' ''llama33'' =
     (Throw missing_content, [Fetch (request_of w_no_text ''Topic'' pro ''short'' ''llama33'')])"
proof -
  have m: "missing_text (fetch w_no_text [] (request_of w_no_text ''Topic'' pro ''short'' ''llama33''))"
    by (simp add: missing_text_def w_no_text_def response_ok_def message_content_def)
  with missing_text_is_terminal[of w_no_text "''Topic''" pro "''short''" "''llama33''"]
  show ?thesis by blast
qed

section \<open>Fallback from model to model\<close>

lemma rejected_with_result:
  assumes "rejected_with st fr" and "fallback_status st"
  shows "\<exists>r t. fr = Resolves r \<and> status r = st \<and> body_text r = Inr t \<and>
               attempt_result fr = Eligible st t"
  using assms
  by (cases fr)
     (auto simp: rejected_with_def attempt_result_def response_ok_def fallback_status_def
           split: sum.splits)






text \<open>
  C2. Started on \<open>llama33\<close>, when the requests for \<open>llama33\<close> and \<open>llama32\<close> are answered
  503 and the request for \<open>llama3\<close> is answered 200 with a text, the call returns that text
  after exactly three requests, for \<open>llama33\<close>, \<open>llama32\<close> and \<open>llama3\<close> in this order, the
  first three of the fallback order.
\<close>

theorem fallback_to_third_model:
  assumes "\<forall>h rq. model (body rq) = Str ''llama-3.3-70b-versatile'' \<longrightarrow>
                   rejected_with 503 (fetch w h rq)"
    and "\<forall>h rq. model (body rq) = Str ''llama-3.2-90b-text-preview'' \<longrightarrow>
                   rejected_with 503 (fetch w h rq)"
    and "\<forall>h rq. model (body rq) = Str ''llama3-70b-8192'' \<longrightarrow>
                   has_status 200 (fetch w h rq) \<and> answers_with c (fetch w h rq)"
  shows "complete_call w prompt pers len ''llama33'' =
           (Return c, requests_for w prompt pers len [''llama33'', ''llama32'', ''llama3''])
       \<and> length (fetches (snd (complete_call w prompt pers len ''llama33''))) = 3
       \<and> map (\<lambda>rq. model (body rq)) (fetches (snd (complete_call w prompt pers len ''llama33''))) =
           [Str ''llama-3.3-70b-versatile'', Str ''llama-3.2-90b-text-preview'', Str ''llama3-70b-8192'']
       \<and> take 3 MODEL_FALLBACK_ORDER = [''llama33'', ''llama32'', ''llama3'']"
proof -
  let ?rq33 = "request_of w prompt pers len ''llama33''"
  let ?rq32 = "request_of w prompt pers len ''llama32''"
  let ?rq3 = "request_of w prompt pers len ''llama3''"
  have ids: "modelId_of ''llama33'' = Str ''llama-3.3-70b-versatile''"
    "modelId_of ''llama32'' = Str ''llama-3.2-90b-text-preview''"
    "modelId_of ''llama3'' = Str ''llama3-70b-8192''"
    by (simp_all add: modelId_of_def FREE_MODELS_get_def FREE_MODELS_def)
  have st: "fallback_status 503" by (simp add: fallback_status_def)
  from assms(1) ids(1) have "rejected_with 503 (fetch w [] ?rq33)" by simp
  from rejected_with_result[OF this st] obtain t1 where
    a1: "attempt_result (fetch w [] ?rq33) = Eligible 503 t1" by blast
  from assms(2) ids(2) have "rejected_with 503 (fetch w [Fetch ?rq33] ?rq32)" by simp
  from rejected_with_result[OF this st] obtain t2 where
    a2: "attempt_result (fetch w [Fetch ?rq33] ?rq32) = Eligible 503 t2" by blast
  from assms(3) ids(3) have "answers_with c (fetch w [Fetch ?rq33, Fetch ?rq32] ?rq3)" by simp
  then have a3: "attempt_result (fetch w [Fetch ?rq33, Fetch ?rq32] ?rq3) = Returned c"
    by (rule answers_with_result)
  have f3: "callGroq_while w prompt pers len ''llama3'' [''llama33'', ''llama32''] 0
              [Fetch ?rq33, Fetch ?rq32] = (Return c, [Fetch ?rq33, Fetch ?rq32, Fetch ?rq3])"
    using a3 by (subst while_cases) simp
  have f2: "callGroq_while w prompt pers len ''llama32'' [''llama33''] 0 [Fetch ?rq33] =
              (Return c, [Fetch ?rq33, Fetch ?rq32, Fetch ?rq3])"
    using a2 f3
    by (subst while_cases)
       (simp add: in_FREE_MODELS_def FREE_MODELS_def Set_has_def Set_add_def fallbackModel_of_def
          MODEL_FALLBACK_ORDER_def callGroq_def new_Set_def Array_from_def)
  have f1: "callGroq_while w prompt pers len ''llama33'' [] 0 [] =
              (Return c, [Fetch ?rq33, Fetch ?rq32, Fetch ?rq3])"
    using a1 f2
    by (subst while_cases)
       (simp add: in_FREE_MODELS_def FREE_MODELS_def Set_has_def Set_add_def fallbackModel_of_def
          MODEL_FALLBACK_ORDER_def callGroq_def new_Set_def Array_from_def)
  then have run: "complete_call w prompt pers len ''llama33'' =
      (Return c, requests_for w prompt pers len [''llama33'', ''llama32'', ''llama3''])"
    by (simp add: complete_call_def callGroq_def new_Set_def requests_for_def)
  show ?thesis
    unfolding run by (simp add: requests_for_def ids MODEL_FALLBACK_ORDER_def)
qed

theorem fallback_to_third_model_witness:
  "complete_call w_third_answers ''Topic'' pro ''short'' ''llama33'' =
     (Return (JStr ''Hello''),
      requests_for w_third_answers ''Topic'' pro ''short'' [''llama33'', ''llama32'', ''llama3''])"
proof -
  have r: "\<forall>h rq. model (body rq) = Str ''llama-3.3-70b-versatile'' \<longrightarrow>
                   rejected_with 503 (fetch w_third_answers h rq)"
    "\<forall>h rq. model (body rq) = Str ''llama-3.2-90b-text-preview'' \<longrightarrow>
                   rejected_with 503 (fetch w_third_answers h rq)"
    by (simp_all add: w_third_answers_def rejected_with_def rejection_def)
  have a: "\<forall>h rq. model (body rq) = Str ''llama3-70b-8192'' \<longrightarrow>
                   has_status 200 (fetch w_third_answers h rq) \<and>
                   answers_with (JStr ''Hello'') (fetch w_third_answers h rq)"
    by (simp add: w_third_answers_def has_status_def answers_with_def completion_def
          response_ok_def message_content_def)
  from fallback_to_third_model[OF r a] show ?thesis by simp
qed




section \<open>The model registry\<close>

lemma modelId_of_own_key:
  "map_of FREE_MODELS alias = Some ident \<Longrightarrow> modelId_of alias = Str ident"
  by (auto simp: modelId_of_def FREE_MODELS_get_def FREE_MODELS_def split: if_splits)

lemma modelId_of_unknown:
  "map_of FREE_MODELS alias = None \<Longrightarrow> alias \<notin> set Object_prototype \<Longrightarrow>
   modelId_of alias = Str ''llama-3.3-70b-versatile''"
  by (simp add: modelId_of_def FREE_MODELS_get_def FREE_MODELS_def)

text \<open>
  C7. The lookup \<open>FREE_MODELS[model] || FREE_MODELS.llama33\<close> is meant to give the default
  identifier for every alias that is not a key of the table. For the alias
  \<open>constructor\<close>, which is not a key of the table, it gives the member every object
  inherits under that name, not the identifier of \<open>llama33\<close>.
\<close>

theorem modelId_of_constructor:
  "map_of FREE_MODELS ''constructor'' = None \<and>
   modelId_of ''constructor'' = Inherited ''constructor'' \<and>
   modelId_of ''constructor'' \<noteq> Str ''llama-3.3-70b-versatile''"
  by (simp add: modelId_of_def FREE_MODELS_get_def FREE_MODELS_def Object_prototype_def)

text \<open>
  C8. The fallback selection returns the first alias of the fixed order
  \<open>[llama33, llama32, llama3, mixtral, llama31, gemma2]\<close> that the tried set does not
  hold, and returns nothing exactly when the tried set holds every alias of the order.
\<close>

theorem fallbackModel_of_first_untried:
  "MODEL_FALLBACK_ORDER = [''llama33'', ''llama32'', ''llama3'', ''mixtral'', ''llama31'', ''gemma2'']
   \<and> (fallbackModel_of tried = None \<longleftrightarrow> set MODEL_FALLBACK_ORDER \<subseteq> set tried)
   \<and> (fallbackModel_of tried = Some m \<longleftrightarrow>
        (\<exists>i < length MODEL_FALLBACK_ORDER.
            MODEL_FALLBACK_ORDER ! i = m \<and> m \<notin> set tried \<and>
            (\<forall>j < i. MODEL_FALLBACK_ORDER ! j \<in> set tried)))"
proof (intro conjI)
  show "MODEL_FALLBACK_ORDER = [''llama33'', ''llama32'', ''llama3'', ''mixtral'', ''llama31'', ''gemma2'']"
    by (simp add: MODEL_FALLBACK_ORDER_def)
  show "fallbackModel_of tried = None \<longleftrightarrow> set MODEL_FALLBACK_ORDER \<subseteq> set tried"
    by (auto simp: fallbackModel_of_def Set_has_def find_None_iff)
  show "fallbackModel_of tried = Some m \<longleftrightarrow>
        (\<exists>i < length MODEL_FALLBACK_ORDER.
            MODEL_FALLBACK_ORDER ! i = m \<and> m \<notin> set tried \<and>
            (\<forall>j < i. MODEL_FALLBACK_ORDER ! j \<in> set tried))"
    unfolding fallbackModel_of_def Set_has_def find_Some_iff by auto
qed

theorem fallbackModel_of_first_untried_witness:
  "fallbackModel_of [''llama33'', ''llama32''] = Some ''llama3'' \<and>
   fallbackModel_of [''gemma2'', ''llama31'', ''mixtral'', ''llama3'', ''llama32'', ''llama33''] = None"
proof
  have "\<exists>i < length MODEL_FALLBACK_ORDER.
          MODEL_FALLBACK_ORDER ! i = ''llama3'' \<and> ''llama3'' \<notin> set [''llama33'', ''llama32''] \<and>
          (\<forall>j < i. MODEL_FALLBACK_ORDER ! j \<in> set [''llama33'', ''llama32''])"
    by (rule exI[of _ 2]) (auto simp: MODEL_FALLBACK_ORDER_def less_Suc_eq numeral_2_eq_2)
  then show "fallbackModel_of [''llama33'', ''llama32''] = Some ''llama3''"
    using fallbackModel_of_first_untried[of "[''llama33'', ''llama32'']" "''llama3''"] by blast
  have "set MODEL_FALLBACK_ORDER
          \<subseteq> set [''gemma2'', ''llama31'', ''mixtral'', ''llama3'', ''llama32'', ''llama33'']"
    by (simp add: MODEL_FALLBACK_ORDER_def)
  then show "fallbackModel_of [''gemma2'', ''llama31'', ''mixtral'', ''llama3'', ''llama32'', ''llama33''] = None"
    using fallbackModel_of_first_untried[of "[''gemma2'', ''llama31'', ''mixtral'', ''llama3'', ''llama32'', ''llama33'']" "''x''"]
    by blast
qed

section \<open>Runs on the sample worlds\<close>

text \<open>
  C1. An alias that the tried set holds should not be requested again in the same call.
  On the world where \<open>llama33\<close> is first answered 503 and \<open>llama32\<close> is unreachable, the
  call requests \<open>llama33\<close>, falls back to \<open>llama32\<close> (\<open>llama33\<close> is in the tried set from
  then on), fails four times there, and then requests \<open>llama33\<close> again, whose answer it
  returns.
\<close>

theorem tried_alias_requested_again:
  "complete_call w_unreachable_fallback ''Topic'' pro ''short'' ''llama33'' =
     (Return (JStr ''Hello''),
      [Fetch (request_of w_unreachable_fallback ''Topic'' pro ''short'' ''llama33''),
       Fetch (request_of w_unreachable_fallback ''Topic'' pro ''short'' ''llama32''),
       Delay 1000,
       Fetch (request_of w_unreachable_fallback ''Topic'' pro ''short'' ''llama32''),
       Delay 2000,
       Fetch (request_of w_unreachable_fallback ''Topic'' pro ''short'' ''llama32''),
       Delay 4000,
       Fetch (request_of w_unreachable_fallback ''Topic'' pro ''short'' ''llama32''),
       Delay 1000,
       Fetch (request_of w_unreachable_fallback ''Topic'' pro ''short'' ''llama33'')])"
  by (simp add: run_defs w_unreachable_fallback_def)

text \<open>
  C10. An alias that is not a key of the model table should never start a fallback. For
  the alias \<open>constructor\<close>, which is not a key of the table, \<open>model in FREE_MODELS\<close> is
  true all the same: a 503 answer makes the call fall back to \<open>llama33\<close>, whose answer it
  returns.
\<close>

theorem inherited_alias_falls_back:
  "map_of FREE_MODELS ''constructor'' = None \<and>
   complete_call w_second_answers ''Topic'' pro ''short'' ''constructor'' =
     (Return (JStr ''Hello''),
      [Fetch (request_of w_second_answers ''Topic'' pro ''short'' ''constructor''),
       Fetch (request_of w_second_answers ''Topic'' pro ''short'' ''llama33'')])"
  by (simp add: run_defs w_second_answers_def)

text \<open>
  C4. One call should send at most \<open>(MAX_RETRIES + 1) * 6 = 24\<close> requests. Started on the
  alias \<open>constructor\<close>, on the world that answers the first six requests 429 and is
  unreachable afterwards, the call sends 28 requests: four for the inherited name and four
  for each of the six models.
\<close>

theorem inherited_alias_28_requests:
  "length (fetches (snd (complete_call w_storm ''Topic'' pro ''short'' ''constructor''))) = 28 \<and>
   (MAX_RETRIES + 1) * length MODEL_FALLBACK_ORDER = 24 \<and>
   fst (complete_call w_storm ''Topic'' pro ''short'' ''constructor'') = Throw fetch_failed"
  by (simp add: run_defs w_storm_def fetches_def)

end
